theory Spec2Isabelle
  imports Main
begin

section \<open>Errors raised by the modelled code\<close>

text \<open>
  Every exception the modelled functions can raise is a value of this type; a fallible
  function returns \<open>error + 'a\<close>, with \<open>Inl\<close> for the raise.
  \<^item> \<open>UnsupportedContentType\<close>: the token counter cannot encode a message;
  \<^item> \<open>MalformedFunctionArguments\<close>: \<open>json.loads\<close> rejects a tool call's arguments;
  \<^item> \<open>AttributeError\<close>: a method is called on a value that has none of that name
    (\<open>.get\<close> on parsed arguments that are no object, \<open>.split\<close> on \<open>None\<close>);
  \<^item> \<open>IndexError\<close>: \<open>choices[0]\<close> or \<open>history[-1]\<close> on an empty list;
  \<^item> \<open>TypeError\<close>: a string is concatenated with a list, or a value that is not
    iterable is iterated.
\<close>

datatype error =
  UnsupportedContentType
  | MalformedFunctionArguments
  | AttributeError
  | IndexError
  | TypeError

section \<open>Follow-up question markers (chatapproach.py, extract_followup_questions)\<close>

text \<open>
  A Python \<open>str\<close> is modelled as a \<open>string\<close>, one \<open>char\<close> for each character of
  the source string. The open marker is the two characters \<open><<\<close>.
\<close>

text \<open>\<^verbatim>\<open>"<<" in content\<close>\<close>

fun has_marker :: "string \<Rightarrow> bool" where
  "has_marker (a # b # cs) = ((a = CHR ''<'' \<and> b = CHR ''<'') \<or> has_marker (b # cs))"
| "has_marker cs = False"


text \<open>
  \<^verbatim>\<open>content.split("<<")[0]\<close>, which is also \<^verbatim>\<open>content[: content.index("<<")]\<close> when
  the marker occurs: the text before the leftmost \<open><<\<close>, the whole text when there is none.
\<close>

fun before_marker :: "string \<Rightarrow> string" where
  "before_marker (a # b # cs) =
     (if a = CHR ''<'' \<and> b = CHR ''<'' then [] else a # before_marker (b # cs))"
| "before_marker cs = cs"

text \<open>\<^verbatim>\<open>content[content.index("<<") :]\<close>: the text from the leftmost \<open><<\<close> onward.\<close>

definition from_marker :: "string \<Rightarrow> string" where
  "from_marker content = drop (length (before_marker content)) content"

text \<open>
  One attempt of the regular expression \<^verbatim>\<open><<([^>>]+)>>\<close> at the start of a string. The
  class \<^verbatim>\<open>[^>>]\<close> is every character but \<open>>\<close> (the newline too), and \<open>+\<close> is greedy:
  it takes the longest run of such characters, which must hold one character at least
  and be followed by \<open>>>\<close>. A shorter run is followed by a character that is not \<open>>\<close>, so
  backtracking finds no other match. The result is the captured group and the text after
  the match.
\<close>

definition followup_match :: "string \<Rightarrow> (string \<times> string) option" where
  "followup_match s =
     (case s of
        a # b # cs \<Rightarrow>
          if a = CHR ''<'' \<and> b = CHR ''<'' then
            (let run = takeWhile (\<lambda>c. c \<noteq> CHR ''>'') cs;
                 rest = dropWhile (\<lambda>c. c \<noteq> CHR ''>'') cs
             in if run \<noteq> [] \<and> take 2 rest = ''>>'' then Some (run, drop 2 rest) else None)
          else None
      | _ \<Rightarrow> None)"

text \<open>
  \<^verbatim>\<open>re.findall(r"<<([^>>]+)>>", content)\<close>: the groups of the non-overlapping matches,
  scanning left to right; after a match the scan goes on behind it, after a failed
  attempt one character further.
\<close>

function findall :: "string \<Rightarrow> string list" where
  "findall s =
     (if s = [] then []
      else (case followup_match s of
              Some (q, rest) \<Rightarrow> q # findall rest
            | None \<Rightarrow> findall (tl s)))"
  by pat_completeness auto
termination
proof (relation "measure length")
  fix s :: string and x2 q rest
  assume ne: "s \<noteq> []" and m: "followup_match s = Some x2" and x2: "(q, rest) = x2"
  from m obtain a b cs where s: "s = a # b # cs"
    by (auto simp: followup_match_def split: list.splits)
  from m x2 s have "rest = drop 2 (dropWhile (\<lambda>c. c \<noteq> CHR ''>'') cs)"
    by (auto simp: followup_match_def Let_def split: if_splits)
  moreover have "length (dropWhile (\<lambda>c. c \<noteq> CHR ''>'') cs) \<le> length cs"
    by (rule length_dropWhile_le)
  ultimately show "(rest, s) \<in> measure length" using s by simp
qed auto

declare findall.simps [simp del]

text \<open>
  \<^verbatim>\<open>return content.split("<<")[0], re.findall(r"<<([^>>]+)>>", content)\<close>
\<close>

definition extract_followup_questions :: "string \<Rightarrow> string \<times> string list" where
  "extract_followup_questions content = (before_marker content, findall content)"

section \<open>Post-processing the answer (chatapproach.py)\<close>

subsection \<open>run_without_streaming\<close>

text \<open>
  The part of \<open>run_without_streaming\<close> behind the completion call. The arguments are
  the truth value of \<^verbatim>\<open>overrides.get("suggest_followup_questions")\<close> and the content of
  the first choice's message (\<open>None\<close> for Python's \<open>None\<close>). The result is the content
  left in the response and the \<open>followup_questions\<close> entry of its context, \<open>None\<close> when
  that key is not set. With follow-up questions requested, a content of \<open>None\<close> makes
  \<^verbatim>\<open>content.split\<close> raise.
\<close>

definition run_without_streaming ::
  "bool \<Rightarrow> string option \<Rightarrow> error + (string option \<times> string list option)" where
  "run_without_streaming suggest_followup_questions message_content =
     (if suggest_followup_questions then
        (case message_content of
           None \<Rightarrow> Inl AttributeError
         | Some c \<Rightarrow>
             (let (content, followup_questions) = extract_followup_questions c
              in Inr (Some content, Some followup_questions)))
      else Inr (message_content, None))"

subsection \<open>run_with_streaming\<close>

text \<open>
  An event of the completion stream, as far as the loop reads it: its \<open>choices\<close> are
  empty, or the first choice's delta has a \<open>content\<close> that is absent or \<open>None\<close>
  (\<open>Delta None\<close>) or a string.
\<close>

datatype event = NoChoices | Delta "string option"

text \<open>The two local variables of the loop.\<close>

record stream_state =
  followup_questions_started :: bool
  followup_content :: string

text \<open>\<^verbatim>\<open>content = content or ""\<close>\<close>

definition content_or_empty :: "string option \<Rightarrow> string" where
  "content_or_empty c = (case c of None \<Rightarrow> [] | Some s \<Rightarrow> s)"

text \<open>
  One pass through the body of \<^verbatim>\<open>async for event_chunk in await chat_coroutine\<close>: the
  new values of the two variables and the events yielded in this pass.
\<close>

definition stream_step :: "bool \<Rightarrow> stream_state \<Rightarrow> event \<Rightarrow> stream_state \<times> event list" where
  "stream_step suggest_followup_questions st ev =
     (case ev of
        NoChoices \<Rightarrow> (st, [])
      | Delta c \<Rightarrow>
          (let content = content_or_empty c in
           if suggest_followup_questions \<and> has_marker content then
             (let earlier_content = before_marker content
              in (\<lparr>followup_questions_started = True,
                   followup_content = followup_content st @ from_marker content\<rparr>,
                  if earlier_content \<noteq> [] then [Delta (Some earlier_content)] else []))
           else if followup_questions_started st then
             (st\<lparr>followup_content := followup_content st @ content\<rparr>, [])
           else (st, [ev])))"

text \<open>The loop over the events of the stream.\<close>

fun stream_loop :: "bool \<Rightarrow> stream_state \<Rightarrow> event list \<Rightarrow> stream_state \<times> event list" where
  "stream_loop suggest st [] = (st, [])"
| "stream_loop suggest st (ev # evs) =
     (let (st1, out1) = stream_step suggest st ev;
          (st2, out2) = stream_loop suggest st1 evs
      in (st2, out1 @ out2))"

text \<open>
  What \<open>run_with_streaming\<close> yields: the first chunk with the role and the context, the
  events passed on from the stream, and a last chunk with the follow-up questions.
\<close>

datatype chunk = RoleContext | Passed event | FollowupQuestions "string list"

definition initial_state :: stream_state where
  "initial_state = \<lparr>followup_questions_started = False, followup_content = []\<rparr>"

definition run_with_streaming :: "bool \<Rightarrow> event list \<Rightarrow> chunk list" where
  "run_with_streaming suggest_followup_questions events =
     (let (st, out) = stream_loop suggest_followup_questions initial_state events
      in RoleContext # map Passed out @
         (if followup_content st \<noteq> []
          then [FollowupQuestions (snd (extract_followup_questions (followup_content st)))]
          else []))"

text \<open>The content a caller sees in a yielded chunk, and in all of them in order.\<close>

fun chunk_content :: "chunk \<Rightarrow> string" where
  "chunk_content (Passed (Delta c)) = content_or_empty c"
| "chunk_content ch = []"

definition visible_content :: "chunk list \<Rightarrow> string" where
  "visible_content chunks = concat (map chunk_content chunks)"

section \<open>Assembling the messages (chatapproach.py, get_messages_from_history)\<close>

text \<open>
  A message is the dictionary \<^verbatim>\<open>{"role": ..., "content": ...}\<close>. Its content is a string
  or, for the vision approach, a list of text and image parts.
\<close>

datatype content_part = TextPart string | ImageUrlPart string

datatype content = Text string | Parts "content_part list"

record message =
  role :: string
  content :: content

definition SYSTEM :: string where "SYSTEM = ''system''"

definition USER :: string where "USER = ''user''"

definition ASSISTANT :: string where "ASSISTANT = ''assistant''"

text \<open>
  Modelled from the spec: the message builder (\<open>core.messagebuilder.MessageBuilder\<close> is
  imported, its file is not among the sources). From the spec's assembler: the list of
  messages starts as the system prompt alone (index 0), and \<open>insert_message\<close> puts a
  message with the given role and content at the given index of the list (1 when none is
  given), as Python's \<open>list.insert\<close> does: the messages from that index on move one place
  to the right, and an index behind the end appends. The cost of a message is the
  token-counting collaborator's, a parameter \<open>count_tokens\<close> of the functions below, which
  fails with \<open>UnsupportedContentType\<close> on content it cannot encode.
\<close>

definition message_builder :: "string \<Rightarrow> message list" where
  "message_builder system_prompt = [\<lparr>role = SYSTEM, content = Text system_prompt\<rparr>]"

definition insert_message :: "message list \<Rightarrow> string \<Rightarrow> content \<Rightarrow> nat \<Rightarrow> message list" where
  "insert_message messages r c index =
     take index messages @ \<lparr>role = r, content = c\<rparr> # drop index messages"

text \<open>
  \<^verbatim>\<open>for shot in reversed(few_shots): message_builder.insert_message(shot.get("role"), shot.get("content"))\<close>
\<close>

fun insert_few_shots :: "message list \<Rightarrow> message list \<Rightarrow> message list" where
  "insert_few_shots messages [] = messages"
| "insert_few_shots messages (shot # shots) =
     insert_few_shots (insert_message messages (role shot) (content shot) 1) shots"

text \<open>
  \<^verbatim>\<open>for existing_message in message_builder.messages: total_token_count += count_tokens_for_message(existing_message)\<close>
\<close>

fun count_existing :: "(message \<Rightarrow> error + int) \<Rightarrow> int \<Rightarrow> message list \<Rightarrow> error + int" where
  "count_existing count_tokens total_token_count [] = Inr total_token_count"
| "count_existing count_tokens total_token_count (existing_message # messages) =
     (case count_tokens existing_message of
        Inl e \<Rightarrow> Inl e
      | Inr n \<Rightarrow> count_existing count_tokens (total_token_count + n) messages)"

text \<open>
  \<^verbatim>\<open>for message in newest_to_oldest\<close>: the loop leaves at the first message that would go
  over \<open>max_tokens\<close>; the others are inserted at \<open>append_index\<close>.
\<close>

fun insert_history ::
  "(message \<Rightarrow> error + int) \<Rightarrow> int \<Rightarrow> nat \<Rightarrow> message list \<Rightarrow> int \<Rightarrow> message list
     \<Rightarrow> error + message list" where
  "insert_history count_tokens max_tokens append_index messages total_token_count [] =
     Inr messages"
| "insert_history count_tokens max_tokens append_index messages total_token_count
     (msg # newest_to_oldest) =
     (case count_tokens msg of
        Inl e \<Rightarrow> Inl e
      | Inr potential_message_count \<Rightarrow>
          if total_token_count + potential_message_count > max_tokens then Inr messages
          else insert_history count_tokens max_tokens append_index
                 (insert_message messages (role msg) (content msg) append_index)
                 (total_token_count + potential_message_count) newest_to_oldest)"

text \<open>
  \<open>get_messages_from_history\<close>. \<^verbatim>\<open>history[:-1]\<close> is \<open>butlast history\<close> (empty for an
  empty history), \<open>max_tokens\<close> is a Python \<open>int\<close> and may be negative.
\<close>

definition get_messages_from_history ::
  "(message \<Rightarrow> error + int) \<Rightarrow> string \<Rightarrow> message list \<Rightarrow> content \<Rightarrow> int \<Rightarrow> message list
     \<Rightarrow> error + message list" where
  "get_messages_from_history count_tokens system_prompt history user_content max_tokens few_shots =
     (let with_shots = insert_few_shots (message_builder system_prompt) (rev few_shots);
          append_index = length few_shots + 1;
          with_user = insert_message with_shots USER user_content append_index
      in case count_existing count_tokens 0 with_user of
           Inl e \<Rightarrow> Inl e
         | Inr total_token_count \<Rightarrow>
             insert_history count_tokens max_tokens append_index with_user total_token_count
               (rev (butlast history)))"

text \<open>
  A token counter for the examples: four tokens for each message and one for each
  character of a text content; a list of parts is not encoded.
\<close>

definition example_count :: "message \<Rightarrow> error + int" where
  "example_count m =
     (case content m of
        Text s \<Rightarrow> Inr (4 + int (length s))
      | Parts ps \<Rightarrow> Inl UnsupportedContentType)"

section \<open>The search query (chatapproach.py, get_search_query)\<close>

text \<open>
  A value that \<open>json.loads\<close> returns; an object is the list of its keys and values.
\<close>

datatype json =
  JNull
  | JBool bool
  | JNum int
  | JStr string
  | JArr "json list"
  | JObj "(string \<times> json) list"

text \<open>
  A tool call of the response (\<open>tool.type\<close>, \<open>tool.function.name\<close>,
  \<open>tool.function.arguments\<close>), the message of a choice (\<open>tool_calls\<close> and \<open>content\<close>,
  each \<open>None\<close> or a value), and the completion with its choices.
\<close>

record tool_call =
  tool_type :: string
  function_name :: string
  function_arguments :: string

record response_message =
  tool_calls :: "tool_call list option"
  message_content :: "string option"

record chat_completion =
  choices :: "response_message list"

definition NO_RESPONSE :: string where "NO_RESPONSE = ''0''"

text \<open>
  Python's \<open>str.isspace\<close> on one character, for the characters below 256, and
  \<open>str.strip()\<close>.
\<close>

definition is_space :: "char \<Rightarrow> bool" where
  "is_space c =
     (c = CHR 0x09 \<or> c = CHR 0x0A \<or> c = CHR 0x0B \<or> c = CHR 0x0C \<or> c = CHR 0x0D \<or>
      c = CHR 0x1C \<or> c = CHR 0x1D \<or> c = CHR 0x1E \<or> c = CHR 0x1F \<or> c = CHR 0x20 \<or>
      c = CHR 0x85 \<or> c = CHR 0xA0)"

definition strip :: "string \<Rightarrow> string" where
  "strip s = rev (dropWhile is_space (rev (dropWhile is_space s)))"

text \<open>
  \<^verbatim>\<open>arg.get("search_query", self.NO_RESPONSE)\<close> on the parsed arguments: an object gives
  the value of the key or the sentinel, any other value has no \<open>get\<close>.
\<close>

definition arg_get_search_query :: "json \<Rightarrow> error + json" where
  "arg_get_search_query arg =
     (case arg of
        JObj kvs \<Rightarrow>
          (case map_of kvs ''search_query'' of
             None \<Rightarrow> Inr (JStr NO_RESPONSE)
           | Some v \<Rightarrow> Inr v)
      | _ \<Rightarrow> Inl AttributeError)"

text \<open>
  \<^verbatim>\<open>for tool in response_message.tool_calls\<close>. The parameter \<open>loads\<close> is \<open>json.loads\<close>,
  \<open>None\<close> where it raises. The loop returns at the first \<open>search_sources\<close> function
  call whose \<open>search_query\<close> is not the sentinel, and goes on to the next tool
  otherwise; behind the loop the function returns \<open>user_query\<close>.
\<close>

fun tool_calls_loop :: "(string \<Rightarrow> json option) \<Rightarrow> string \<Rightarrow> tool_call list \<Rightarrow> error + json" where
  "tool_calls_loop loads user_query [] = Inr (JStr user_query)"
| "tool_calls_loop loads user_query (tool # tools) =
     (if tool_type tool \<noteq> ''function'' then tool_calls_loop loads user_query tools
      else if function_name tool = ''search_sources'' then
        (case loads (function_arguments tool) of
           None \<Rightarrow> Inl MalformedFunctionArguments
         | Some arg \<Rightarrow>
             (case arg_get_search_query arg of
                Inl e \<Rightarrow> Inl e
              | Inr search_query \<Rightarrow>
                  if search_query \<noteq> JStr NO_RESPONSE then Inr search_query
                  else tool_calls_loop loads user_query tools))
      else tool_calls_loop loads user_query tools)"

text \<open>
  \<open>get_search_query\<close>. A list of tool calls is true when it is not empty, a content
  when it is a string that is not empty. The \<open>elif\<close> on the content is reached only when
  there is no tool call at all. The result is a JSON value, since \<open>search_query\<close> is
  whatever the arguments hold; a string is \<open>JStr\<close>.
\<close>

definition get_search_query ::
  "(string \<Rightarrow> json option) \<Rightarrow> chat_completion \<Rightarrow> string \<Rightarrow> error + json" where
  "get_search_query loads completion user_query =
     (case choices completion of
        [] \<Rightarrow> Inl IndexError
      | response # _ \<Rightarrow>
          (case tool_calls response of
             Some (tool # tools) \<Rightarrow> tool_calls_loop loads user_query (tool # tools)
           | _ \<Rightarrow>
               (case message_content response of
                  Some (c # cs) \<Rightarrow>
                    if strip (c # cs) \<noteq> NO_RESPONSE then Inr (JStr (c # cs))
                    else Inr (JStr user_query)
                | _ \<Rightarrow> Inr (JStr user_query))))"


text \<open>
  A parser for the examples: it knows three argument strings and rejects the rest.
\<close>

definition example_loads :: "string \<Rightarrow> json option" where
  "example_loads s =
     (if s = ''{\"search_query\": \"rent appeal\"}'' then Some (JObj [(''search_query'', JStr ''rent appeal'')])
      else if s = ''{\"search_query\": \"0\"}'' then Some (JObj [(''search_query'', JStr ''0'')])
      else if s = ''{}'' then Some (JObj [])
      else None)"

section \<open>Retrieval (chatreadretrievereadvision.py and retrievethenread.py)\<close>

text \<open>
  The values of the \<open>overrides\<close> dictionary that the modelled lines read, with Python's
  truth value and its \<open>and\<close>, which returns its first operand when that is false and
  its second otherwise.
\<close>

datatype pyval = PNone | PBool bool | PInt int | PStr string | PList "pyval list"

fun truthy :: "pyval \<Rightarrow> bool" where
  "truthy PNone = False"
| "truthy (PBool b) = b"
| "truthy (PInt i) = (i \<noteq> 0)"
| "truthy (PStr s) = (s \<noteq> [])"
| "truthy (PList vs) = (vs \<noteq> [])"

definition py_and :: "pyval \<Rightarrow> pyval \<Rightarrow> pyval" where
  "py_and x y = (if truthy x then y else x)"

text \<open>\<^verbatim>\<open>overrides.get(key)\<close> and \<^verbatim>\<open>overrides.get(key, default)\<close>\<close>

definition overrides_get :: "(string \<rightharpoonup> pyval) \<Rightarrow> string \<Rightarrow> pyval" where
  "overrides_get overrides key = (case overrides key of None \<Rightarrow> PNone | Some v \<Rightarrow> v)"

definition overrides_get_default :: "(string \<rightharpoonup> pyval) \<Rightarrow> string \<Rightarrow> pyval \<Rightarrow> pyval" where
  "overrides_get_default overrides key d = (case overrides key of None \<Rightarrow> d | Some v \<Rightarrow> v)"

text \<open>
  \<^verbatim>\<open>overrides.get("retrieval_mode") in ["text", "hybrid", None]\<close> and
  \<^verbatim>\<open>overrides.get("retrieval_mode") in ["vectors", "hybrid", None]\<close>
\<close>

definition has_text :: "(string \<rightharpoonup> pyval) \<Rightarrow> bool" where
  "has_text overrides =
     (let m = overrides_get overrides ''retrieval_mode''
      in m = PStr ''text'' \<or> m = PStr ''hybrid'' \<or> m = PNone)"

definition has_vector :: "(string \<rightharpoonup> pyval) \<Rightarrow> bool" where
  "has_vector overrides =
     (let m = overrides_get overrides ''retrieval_mode''
      in m = PStr ''vectors'' \<or> m = PStr ''hybrid'' \<or> m = PNone)"

text \<open>
  The arguments of the call \<open>self.search(...)\<close> that the modelled lines compute: \<open>top\<close>,
  the query text (\<open>None\<close> for Python's \<open>None\<close>), the embeddings asked for, and the two
  semantic flags as the Python values passed. The filter and the two minimum scores
  are passed through from collaborators and overrides and are left out.
\<close>

datatype 'q vector_query = TextEmbedding 'q | ImageEmbedding 'q

record 'q search_args =
  top :: pyval
  query_text :: "'q option"
  vectors :: "'q vector_query list"
  use_semantic_ranker :: pyval
  use_semantic_captions :: pyval

subsection \<open>The vision approach: run_until_final_call up to the search call\<close>

text \<open>
  \<^verbatim>\<open>" ".join(user_query_request)\<close>: \<open>str.join\<close> over the items of an iterable, and a
  string iterated as its one-character strings.
\<close>

fun str_join :: "string \<Rightarrow> string list \<Rightarrow> string" where
  "str_join sep [] = []"
| "str_join sep [x] = x"
| "str_join sep (x # y # ys) = x @ sep @ str_join sep (y # ys)"

definition characters :: "string \<Rightarrow> string list" where
  "characters s = map (\<lambda>c. [c]) s"

text \<open>\<^verbatim>\<open>user_query_request = "Generate search query for: " + original_user_query\<close>\<close>

definition user_query_request :: "string \<Rightarrow> string" where
  "user_query_request original_user_query = ''Generate search query for: '' @ original_user_query"

text \<open>
  \<^verbatim>\<open>max_tokens=self.chatgpt_token_limit - len(" ".join(user_query_request))\<close>
\<close>

definition query_max_tokens :: "int \<Rightarrow> string \<Rightarrow> int" where
  "query_max_tokens chatgpt_token_limit request =
     chatgpt_token_limit - int (length (str_join '' '' (characters request)))"

text \<open>
  Lines 100 to 112: the messages of the query-distillation step. The token limit of the
  model (\<open>get_token_limit\<close>, of \<open>core.modelhelper\<close>), the prompt template and the few-shot
  examples of the class are parameters. \<open>history[-1]\<close> raises on an empty history, and
  the concatenation with a string raises \<open>TypeError\<close> on a content that is a list.
\<close>

definition query_messages ::
  "(message \<Rightarrow> error + int) \<Rightarrow> int \<Rightarrow> string \<Rightarrow> message list \<Rightarrow> message list
     \<Rightarrow> error + message list" where
  "query_messages count_tokens chatgpt_token_limit query_prompt_template query_prompt_few_shots
     history =
     (case history of
        [] \<Rightarrow> Inl IndexError
      | _ # _ \<Rightarrow>
          (case content (last history) of
             Parts ps \<Rightarrow> Inl TypeError
           | Text original_user_query \<Rightarrow>
               get_messages_from_history count_tokens query_prompt_template history
                 (Text (user_query_request original_user_query))
                 (query_max_tokens chatgpt_token_limit (user_query_request original_user_query))
                 query_prompt_few_shots))"

text \<open>
  \<^verbatim>\<open>for field in vector_fields\<close>: a list is iterated over its elements, a string over
  its characters (none of which is \<open>"embedding"\<close>), another value is not iterable.
\<close>

definition compute_vectors :: "pyval \<Rightarrow> 'q \<Rightarrow> error + 'q vector_query list" where
  "compute_vectors vector_fields q =
     (case vector_fields of
        PList field_list \<Rightarrow>
          Inr (map (\<lambda>field. if field = PStr ''embedding'' then TextEmbedding q
                              else ImageEmbedding q) field_list)
      | PStr s \<Rightarrow> Inr (map (\<lambda>c. ImageEmbedding q) s)
      | _ \<Rightarrow> Inl TypeError)"

text \<open>
  Lines 87 to 150 of the vision approach, up to the arguments of the search call. The
  completion service is the parameter \<open>create\<close>, from the query messages to the
  completion or the error it raises. A \<open>search_query\<close> that is JSON \<open>null\<close> is Python's
  \<open>None\<close>, so the query text passed on is \<open>None\<close> for it, as it is when the retrieval
  mode has no text.
\<close>

definition vision_search_args ::
  "(message \<Rightarrow> error + int) \<Rightarrow> (string \<Rightarrow> json option) \<Rightarrow> int \<Rightarrow> string \<Rightarrow> message list
     \<Rightarrow> (message list \<Rightarrow> error + chat_completion) \<Rightarrow> (string \<rightharpoonup> pyval) \<Rightarrow> message list
     \<Rightarrow> error + json search_args" where
  "vision_search_args count_tokens loads chatgpt_token_limit query_prompt_template
     query_prompt_few_shots create overrides history =
     (let vector_fields = overrides_get_default overrides ''vector_fields'' (PList [PStr ''embedding'']);
          semantic_captions =
            PBool (truthy (py_and (overrides_get overrides ''semantic_captions'')
                             (PBool (has_text overrides))));
          top_value = overrides_get_default overrides ''top'' (PInt 3);
          semantic_ranker =
            PBool (truthy (py_and (overrides_get overrides ''semantic_ranker'')
                             (PBool (has_text overrides))))
      in case query_messages count_tokens chatgpt_token_limit query_prompt_template
                query_prompt_few_shots history of
           Inl e \<Rightarrow> Inl e
         | Inr msgs \<Rightarrow>
             (case create msgs of
                Inl e \<Rightarrow> Inl e
              | Inr completion \<Rightarrow>
                  (case get_search_query loads completion
                          (case content (last history) of Text q \<Rightarrow> q | Parts ps \<Rightarrow> []) of
                     Inl e \<Rightarrow> Inl e
                   | Inr q \<Rightarrow>
                       (case (if has_vector overrides then compute_vectors vector_fields q
                              else Inr []) of
                          Inl e \<Rightarrow> Inl e
                        | Inr vs \<Rightarrow>
                            Inr \<lparr>top = top_value,
                                 query_text =
                                   (if has_text overrides \<and> q \<noteq> JNull then Some q else None),
                                 vectors = vs,
                                 use_semantic_ranker = semantic_ranker,
                                 use_semantic_captions = semantic_captions\<rparr>))))"

text \<open>
  A completion service for the examples: it answers every prompt with one call of
  \<open>search_sources\<close>.
\<close>

definition example_create :: "message list \<Rightarrow> error + chat_completion" where
  "example_create msgs =
     Inr \<lparr>choices =
            [\<lparr>tool_calls =
                Some [\<lparr>tool_type = ''function'', function_name = ''search_sources'',
                       function_arguments = ''{\"search_query\": \"rent appeal\"}''\<rparr>],
              message_content = None\<rparr>]\<rparr>"

subsection \<open>The retrieve-then-read approach: run up to the search call\<close>

text \<open>
  Lines 78 to 107 of \<open>retrievethenread.py\<close>. Here \<open>use_semantic_ranker\<close> is the value of
  \<^verbatim>\<open>overrides.get("semantic_ranker") and has_text\<close> itself, with no conversion to a
  Boolean.
\<close>

definition retrieve_then_read_search_args ::
  "(string \<rightharpoonup> pyval) \<Rightarrow> message list \<Rightarrow> error + content search_args" where
  "retrieve_then_read_search_args overrides messages =
     (case messages of
        [] \<Rightarrow> Inl IndexError
      | _ # _ \<Rightarrow>
          (let q = content (last messages);
               semantic_ranker =
                 py_and (overrides_get overrides ''semantic_ranker'') (PBool (has_text overrides));
               semantic_captions =
                 PBool (truthy (py_and (overrides_get overrides ''semantic_captions'')
                                  (PBool (has_text overrides))))
           in Inr \<lparr>top = overrides_get_default overrides ''top'' (PInt 3),
                   query_text = (if has_text overrides then Some q else None),
                   vectors = (if has_vector overrides then [TextEmbedding q] else []),
                   use_semantic_ranker = semantic_ranker,
                   use_semantic_captions = semantic_captions\<rparr>))"

section \<open>Properties of the follow-up extraction\<close>

lemma before_marker_head:
  "before_marker (b # cs) = [] \<or> (\<exists>r. before_marker (b # cs) = b # r)"
  by (cases cs) auto

lemma before_marker_no_marker: "\<not> has_marker (before_marker s)"
proof (induction s rule: before_marker.induct)
  case (1 a b cs)
  show ?case
  proof (cases "a = CHR ''<'' \<and> b = CHR ''<''")
    case True
    then show ?thesis by simp
  next
    case False
    with 1 have ih: "\<not> has_marker (before_marker (b # cs))" by simp
    from before_marker_head [of b cs] show ?thesis
    proof
      assume "before_marker (b # cs) = []"
      with False show ?thesis by simp
    next
      assume "\<exists>r. before_marker (b # cs) = b # r"
      then obtain r where r: "before_marker (b # cs) = b # r" ..
      with ih False show ?thesis by auto
    qed
  qed
qed simp_all

lemma before_marker_id: "\<not> has_marker s \<Longrightarrow> before_marker s = s"
  by (induction s rule: before_marker.induct) auto

lemma followup_match_needs_marker:
  "followup_match s = Some r \<Longrightarrow> \<exists>cs. s = CHR ''<'' # CHR ''<'' # cs"
  by (auto simp: followup_match_def split: list.splits if_splits)

lemma has_marker_tl: "has_marker (tl s) \<Longrightarrow> has_marker s"
  by (cases s rule: has_marker.cases) auto

lemma findall_no_marker: "\<not> has_marker s \<Longrightarrow> findall s = []"
proof (induction s rule: length_induct)
  case (1 s)
  show ?case
  proof (cases "s = []")
    case True
    then show ?thesis by (simp add: findall.simps)
  next
    case False
    have none: "followup_match s = None"
    proof (cases "followup_match s")
      case (Some r)
      from followup_match_needs_marker [OF Some] 1(2) show ?thesis by auto
    qed simp
    from False have "length (tl s) < length s" by simp
    moreover from 1(2) have "\<not> has_marker (tl s)" using has_marker_tl by blast
    ultimately have "findall (tl s) = []" using 1(1) by blast
    with False none show ?thesis by (simp add: findall.simps)
  qed
qed







text \<open>
  Claim C8. Extraction is idempotent on text that a first pass has cleaned: for every
  string \<open>x\<close>, a second extraction on the visible content left by the first finds no
  follow-up question, and no \<open><<\<close> marker remains in that content, which the second
  pass returns unchanged.
\<close>

theorem extract_followup_questions_idempotent:
  "extract_followup_questions (fst (extract_followup_questions x)) =
     (fst (extract_followup_questions x), []) \<and>
   \<not> has_marker (fst (extract_followup_questions x))"
  by (simp add: extract_followup_questions_def before_marker_no_marker before_marker_id
      findall_no_marker)



section \<open>Properties of the message assembly\<close>

lemma message_eta [simp]: "\<lparr>role = role m, content = content m\<rparr> = (m::message)"
  by (cases m) simp

lemma insert_few_shots_acc:
  "insert_few_shots (sys # acc) shots = sys # rev shots @ acc"
  by (induction shots arbitrary: acc) (simp_all add: insert_message_def)

lemma insert_message_after_shots:
  "insert_message (sys # fs @ rest) r c (length fs + 1) =
     sys # fs @ \<lparr>role = r, content = c\<rparr> # rest"
  by (simp add: insert_message_def)

lemma count_existing_shift:
  "count_existing cnt t xs = Inr t' \<Longrightarrow> count_existing cnt (t + d) xs = Inr (t' + d)"
proof (induction xs arbitrary: t)
  case Nil
  then show ?case by simp
next
  case (Cons x xs)
  then obtain n where n: "cnt x = Inr n" and r: "count_existing cnt (t + n) xs = Inr t'"
    by (auto split: sum.splits)
  from Cons.IH [OF r] n show ?case by (simp add: add.commute add.left_commute)
qed

lemma count_existing_append:
  "count_existing cnt t (xs @ ys) =
     (case count_existing cnt t xs of Inl e \<Rightarrow> Inl e | Inr t' \<Rightarrow> count_existing cnt t' ys)"
  by (induction xs arbitrary: t) (auto split: sum.splits)

lemma count_existing_insert:
  assumes "cnt m = Inr c" and "count_existing cnt t (pre @ post) = Inr tot"
  shows "count_existing cnt t (pre @ m # post) = Inr (tot + c)"
proof -
  from assms(2) obtain t1 where t1: "count_existing cnt t pre = Inr t1"
    and t2: "count_existing cnt t1 post = Inr tot"
    by (auto simp: count_existing_append split: sum.splits)
  from count_existing_shift [OF t2, of c] have "count_existing cnt (t1 + c) post = Inr (tot + c)" .
  with t1 assms(1) show ?thesis by (simp add: count_existing_append)
qed

lemma insert_history_invariant:
  assumes "insert_history cnt T (length fs + 1) (sys # fs @ mid @ [usr]) tot hist = Inr ms"
    and "count_existing cnt 0 (sys # fs @ mid @ [usr]) = Inr tot"
  shows "\<exists>mid' tot'. ms = sys # fs @ mid' @ [usr] \<and>
           count_existing cnt 0 ms = Inr tot' \<and> (tot \<le> T \<longrightarrow> tot' \<le> T)"
  using assms
proof (induction hist arbitrary: mid tot)
  case Nil
  then show ?case by auto
next
  case (Cons h hist)
  from Cons.prems(1) obtain c where c: "cnt h = Inr c"
    by (auto split: sum.splits)
  show ?case
  proof (cases "tot + c > T")
    case True
    with Cons.prems c have "ms = sys # fs @ mid @ [usr]" by simp
    with Cons.prems(2) show ?thesis by auto
  next
    case False
    let ?mid = "h # mid"
    have ins: "insert_message (sys # fs @ mid @ [usr]) (role h) (content h) (length fs + 1)
        = sys # fs @ ?mid @ [usr]"
      using insert_message_after_shots [of sys fs "mid @ [usr]"] by simp
    from Cons.prems(1) c False ins
    have run: "insert_history cnt T (length fs + 1) (sys # fs @ ?mid @ [usr]) (tot + c) hist = Inr ms"
      by simp
    have "count_existing cnt 0 ((sys # fs) @ h # (mid @ [usr])) = Inr (tot + c)"
      using count_existing_insert [of cnt h c 0 "sys # fs" "mid @ [usr]" tot] c Cons.prems(2) by simp
    then have cnt': "count_existing cnt 0 (sys # fs @ ?mid @ [usr]) = Inr (tot + c)" by simp
    from Cons.IH [OF run cnt'] obtain mid' tot' where
      r: "ms = sys # fs @ mid' @ [usr]" "count_existing cnt 0 ms = Inr tot'"
         "tot + c \<le> T \<longrightarrow> tot' \<le> T" by blast
    with False show ?thesis by auto
  qed
qed

lemma get_messages_unfold:
  "get_messages_from_history cnt sp history uc T fs =
     (case count_existing cnt 0 (\<lparr>role = SYSTEM, content = Text sp\<rparr> # fs @ [\<lparr>role = USER, content = uc\<rparr>]) of
        Inl e \<Rightarrow> Inl e
      | Inr tot \<Rightarrow>
          insert_history cnt T (length fs + 1)
            (\<lparr>role = SYSTEM, content = Text sp\<rparr> # fs @ [\<lparr>role = USER, content = uc\<rparr>]) tot
            (rev (butlast history)))"
proof -
  let ?sys = "\<lparr>role = SYSTEM, content = Text sp\<rparr>"
  have a: "insert_few_shots (message_builder sp) (rev fs) = ?sys # fs"
    by (simp add: message_builder_def insert_few_shots_acc)
  have b: "insert_message (?sys # fs) USER uc (length fs + 1) = ?sys # fs @ [\<lparr>role = USER, content = uc\<rparr>]"
    using insert_message_after_shots [of ?sys fs "[]" USER uc] by simp
  show ?thesis
    unfolding get_messages_from_history_def Let_def a b ..
qed


lemma messages_of_result:
  assumes "get_messages_from_history cnt sp history uc T fs = Inr ms"
  shows "\<exists>mid base tot.
           ms = \<lparr>role = SYSTEM, content = Text sp\<rparr> # fs @ mid @ [\<lparr>role = USER, content = uc\<rparr>] \<and>
           count_existing cnt 0 (\<lparr>role = SYSTEM, content = Text sp\<rparr> # fs @ [\<lparr>role = USER, content = uc\<rparr>]) = Inr base \<and>
           count_existing cnt 0 ms = Inr tot \<and> (base \<le> T \<longrightarrow> tot \<le> T)"
proof -
  let ?sys = "\<lparr>role = SYSTEM, content = Text sp\<rparr>" and ?usr = "\<lparr>role = USER, content = uc\<rparr>"
  from assms obtain base where base: "count_existing cnt 0 (?sys # fs @ [?usr]) = Inr base"
    and run: "insert_history cnt T (length fs + 1) (?sys # fs @ [] @ [?usr]) base (rev (butlast history)) = Inr ms"
    by (auto simp: get_messages_unfold split: sum.splits)
  from base have base': "count_existing cnt 0 (?sys # fs @ [] @ [?usr]) = Inr base" by simp
  from insert_history_invariant [OF run base'] base show ?thesis by blast
qed

lemma get_messages_returns:
  assumes "\<forall>m \<in> set (\<lparr>role = SYSTEM, content = Text sp\<rparr> # fs @ [\<lparr>role = USER, content = uc\<rparr>]) \<union> set (butlast history). \<exists>c. cnt m = Inr c"
  shows "\<exists>ms. get_messages_from_history cnt sp history uc T fs = Inr ms"
proof -
  have ce: "\<And>xs t. \<forall>m \<in> set xs. \<exists>c. cnt m = Inr c \<Longrightarrow> \<exists>r. count_existing cnt t xs = Inr r"
  proof -
    fix xs t show "\<forall>m \<in> set xs. \<exists>c. cnt m = Inr c \<Longrightarrow> \<exists>r. count_existing cnt t xs = Inr r"
      by (induction xs arbitrary: t) auto
  qed
  have ih: "\<And>xs b t. \<forall>m \<in> set xs. \<exists>c. cnt m = Inr c \<Longrightarrow> \<exists>r. insert_history cnt T (length fs + 1) b t xs = Inr r"
  proof -
    fix xs b t show "\<forall>m \<in> set xs. \<exists>c. cnt m = Inr c \<Longrightarrow> \<exists>r. insert_history cnt T (length fs + 1) b t xs = Inr r"
      by (induction xs arbitrary: b t) auto
  qed
  from assms obtain base where
    "count_existing cnt 0 (\<lparr>role = SYSTEM, content = Text sp\<rparr> # fs @ [\<lparr>role = USER, content = uc\<rparr>]) = Inr base"
    using ce [of "\<lparr>role = SYSTEM, content = Text sp\<rparr> # fs @ [\<lparr>role = USER, content = uc\<rparr>]" 0] by auto
  moreover from assms have "\<forall>m \<in> set (rev (butlast history)). \<exists>c. cnt m = Inr c" by auto
  ultimately show ?thesis using ih by (simp add: get_messages_unfold)
qed

text \<open>
  Claim C3, as amended. The system prompt, the few-shot examples and the new user turn
  are put into the list before any cost is looked at, so the total can exceed the
  ceiling. What holds: when the token counter encodes the messages it is asked about,
  \<open>get_messages_from_history\<close> returns a list that starts with the system prompt, goes on
  with the few-shot examples and ends with the new user turn, for every ceiling; and
  when the ceiling is at least the cost of these mandatory messages, the total cost of
  the returned list is at most the ceiling.
\<close>

theorem messages_within_ceiling:
  assumes "\<forall>m \<in> set (\<lparr>role = SYSTEM, content = Text sp\<rparr> # fs @ [\<lparr>role = USER, content = uc\<rparr>]) \<union> set (butlast history). \<exists>c. cnt m = Inr c"
  shows "\<exists>ms mid base tot.
           get_messages_from_history cnt sp history uc T fs = Inr ms \<and>
           ms = \<lparr>role = SYSTEM, content = Text sp\<rparr> # fs @ mid @ [\<lparr>role = USER, content = uc\<rparr>] \<and>
           count_existing cnt 0 (\<lparr>role = SYSTEM, content = Text sp\<rparr> # fs @ [\<lparr>role = USER, content = uc\<rparr>]) = Inr base \<and>
           count_existing cnt 0 ms = Inr tot \<and> (base \<le> T \<longrightarrow> tot \<le> T)"
proof -
  from get_messages_returns [OF assms] obtain ms where
    ms: "get_messages_from_history cnt sp history uc T fs = Inr ms" by blast
  from messages_of_result [OF ms] ms show ?thesis by blast
qed


theorem messages_within_ceiling_witness:
  "get_messages_from_history example_count ''sys''
     [\<lparr>role = USER, content = Text ''Q1''\<rparr>, \<lparr>role = ASSISTANT, content = Text ''A1''\<rparr>,
      \<lparr>role = USER, content = Text ''Q2''\<rparr>] (Text ''Q2'') 20 [] =
   Inr [\<lparr>role = SYSTEM, content = Text ''sys''\<rparr>, \<lparr>role = ASSISTANT, content = Text ''A1''\<rparr>,
        \<lparr>role = USER, content = Text ''Q2''\<rparr>] \<and>
   count_existing example_count 0
     [\<lparr>role = SYSTEM, content = Text ''sys''\<rparr>, \<lparr>role = USER, content = Text ''Q2''\<rparr>] = Inr 13 \<and>
   (13::int) \<le> 20 \<and>
   count_existing example_count 0
     [\<lparr>role = SYSTEM, content = Text ''sys''\<rparr>, \<lparr>role = ASSISTANT, content = Text ''A1''\<rparr>,
      \<lparr>role = USER, content = Text ''Q2''\<rparr>] = Inr 19 \<and>
   (19::int) \<le> 20"
  using messages_within_ceiling [of "''sys''" "[]" "Text ''Q2''"
      "[\<lparr>role = USER, content = Text ''Q1''\<rparr>, \<lparr>role = ASSISTANT, content = Text ''A1''\<rparr>,
        \<lparr>role = USER, content = Text ''Q2''\<rparr>]" example_count 20]
  by (simp add: example_count_def get_messages_from_history_def message_builder_def
      insert_message_def SYSTEM_def USER_def ASSISTANT_def)

text \<open>
  Claim C3 as stated fails with a ceiling of 13 tokens, which is the combined cost of
  the system prompt and the new user turn (7 and 6 with \<open>example_count\<close>): the two
  few-shot examples are kept all the same, and the returned list costs 25 tokens.
\<close>

theorem messages_exceed_ceiling:
  "get_messages_from_history example_count ''sys'' [] (Text ''Q2'') 13
     [\<lparr>role = USER, content = Text ''f1''\<rparr>, \<lparr>role = ASSISTANT, content = Text ''f2''\<rparr>] =
   Inr [\<lparr>role = SYSTEM, content = Text ''sys''\<rparr>,
        \<lparr>role = USER, content = Text ''f1''\<rparr>, \<lparr>role = ASSISTANT, content = Text ''f2''\<rparr>,
        \<lparr>role = USER, content = Text ''Q2''\<rparr>] \<and>
   count_existing example_count 0
     [\<lparr>role = SYSTEM, content = Text ''sys''\<rparr>, \<lparr>role = USER, content = Text ''Q2''\<rparr>] = Inr 13 \<and>
   count_existing example_count 0
     [\<lparr>role = SYSTEM, content = Text ''sys''\<rparr>,
      \<lparr>role = USER, content = Text ''f1''\<rparr>, \<lparr>role = ASSISTANT, content = Text ''f2''\<rparr>,
      \<lparr>role = USER, content = Text ''Q2''\<rparr>] = Inr 25 \<and>
   \<not> ((25::int) \<le> 13)"
  by (simp add: get_messages_from_history_def message_builder_def insert_message_def
      example_count_def SYSTEM_def USER_def ASSISTANT_def)

lemma insert_history_take:
  assumes "\<forall>j<length newer. \<exists>t. count_existing cnt tot (take (Suc j) newer) = Inr t \<and> t \<le> T"
    and "count_existing cnt tot newer = Inr t"
  shows "insert_history cnt T (length fs + 1) (sys # fs @ mid @ [usr]) tot (newer @ rest) =
         insert_history cnt T (length fs + 1) (sys # fs @ rev newer @ mid @ [usr]) t rest"
  using assms
proof (induction newer arbitrary: mid tot)
  case Nil
  then show ?case by simp
next
  case (Cons n newer)
  from Cons.prems(1) have "\<exists>t. count_existing cnt tot (take (Suc 0) (n # newer)) = Inr t \<and> t \<le> T"
    by (meson length_greater_0_conv list.discI)
  then obtain c where c: "cnt n = Inr c" and fit: "tot + c \<le> T"
    by (auto split: sum.splits)
  have p1: "\<forall>j<length newer. \<exists>t. count_existing cnt (tot + c) (take (Suc j) newer) = Inr t \<and> t \<le> T"
  proof (intro allI impI)
    fix j assume "j < length newer"
    then have "Suc j < length (n # newer)" by simp
    with Cons.prems(1) obtain t' where
      "count_existing cnt tot (take (Suc (Suc j)) (n # newer)) = Inr t' \<and> t' \<le> T" by blast
    with c show "\<exists>t. count_existing cnt (tot + c) (take (Suc j) newer) = Inr t \<and> t \<le> T" by simp
  qed
  from Cons.prems(2) c have p2: "count_existing cnt (tot + c) newer = Inr t" by simp
  have ins: "insert_message (sys # fs @ mid @ [usr]) (role n) (content n) (length fs + 1)
        = sys # fs @ (n # mid) @ [usr]"
    using insert_message_after_shots [of sys fs "mid @ [usr]"] by simp
  from Cons.IH [OF p1 p2, of "n # mid"] c fit ins show ?case by simp
qed

text \<open>
  Claim C4. Walking the history from the newest entry to the oldest (the last entry,
  which became the new user turn, left out): when the entries \<open>newer\<close> each fit as the
  walk reaches them, and the next entry \<open>dropped\<close> would push the running total over the
  ceiling, the returned list holds the entries of \<open>newer\<close>, in chronological order,
  between the few-shot examples and the new user turn, and neither \<open>dropped\<close> nor any
  entry of \<open>older\<close>, whatever the older entries cost.
\<close>

theorem history_single_cutoff:
  assumes "rev (butlast history) = newer @ dropped # older"
    and "count_existing cnt 0 (\<lparr>role = SYSTEM, content = Text sp\<rparr> # fs @ [\<lparr>role = USER, content = uc\<rparr>]) = Inr base"
    and "\<forall>j<length newer. \<exists>t. count_existing cnt base (take (Suc j) newer) = Inr t \<and> t \<le> T"
    and "count_existing cnt base newer = Inr t"
    and "cnt dropped = Inr c"
    and "t + c > T"
  shows "get_messages_from_history cnt sp history uc T fs =
           Inr (\<lparr>role = SYSTEM, content = Text sp\<rparr> # fs @ rev newer @ [\<lparr>role = USER, content = uc\<rparr>])"
proof -
  let ?sys = "\<lparr>role = SYSTEM, content = Text sp\<rparr>" and ?usr = "\<lparr>role = USER, content = uc\<rparr>"
  have "insert_history cnt T (length fs + 1) (?sys # fs @ [] @ [?usr]) base (newer @ dropped # older) =
        insert_history cnt T (length fs + 1) (?sys # fs @ rev newer @ [] @ [?usr]) t (dropped # older)"
    by (rule insert_history_take [OF assms(3) assms(4)])
  also have "\<dots> = Inr (?sys # fs @ rev newer @ [?usr])"
    using assms(5,6) by simp
  finally show ?thesis using assms(1,2) by (simp add: get_messages_unfold)
qed

text \<open>
  At a ceiling of 32 tokens the walk takes \<open>A1\<close> and \<open>Q1\<close> (running total 25), stops at
  the long answer (14 tokens), and so drops \<open>Q0\<close> too, whose 6 tokens would have fitted.
\<close>

theorem history_single_cutoff_witness:
  "get_messages_from_history example_count ''sys''
     [\<lparr>role = USER, content = Text ''Q0''\<rparr>, \<lparr>role = ASSISTANT, content = Text ''A0 is long''\<rparr>,
      \<lparr>role = USER, content = Text ''Q1''\<rparr>, \<lparr>role = ASSISTANT, content = Text ''A1''\<rparr>,
      \<lparr>role = USER, content = Text ''Q2''\<rparr>]
     (Text ''Q2'') 32 [] =
   Inr [\<lparr>role = SYSTEM, content = Text ''sys''\<rparr>,
        \<lparr>role = USER, content = Text ''Q1''\<rparr>, \<lparr>role = ASSISTANT, content = Text ''A1''\<rparr>,
        \<lparr>role = USER, content = Text ''Q2''\<rparr>] \<and>
   example_count \<lparr>role = USER, content = Text ''Q0''\<rparr> = Inr 6 \<and> (25::int) + 6 \<le> 32"
  using history_single_cutoff [of
     "[\<lparr>role = USER, content = Text ''Q0''\<rparr>, \<lparr>role = ASSISTANT, content = Text ''A0 is long''\<rparr>,
      \<lparr>role = USER, content = Text ''Q1''\<rparr>, \<lparr>role = ASSISTANT, content = Text ''A1''\<rparr>,
      \<lparr>role = USER, content = Text ''Q2''\<rparr>]"
     "[\<lparr>role = ASSISTANT, content = Text ''A1''\<rparr>, \<lparr>role = USER, content = Text ''Q1''\<rparr>]"
     "\<lparr>role = ASSISTANT, content = Text ''A0 is long''\<rparr>"
     "[\<lparr>role = USER, content = Text ''Q0''\<rparr>]"
     example_count "''sys''" "[]" "Text ''Q2''" 13 32 25 14]
  by (simp add: example_count_def All_less_Suc)

text \<open>
  Claim C5, as amended. For a history of three entries, the last of which is consumed
  as the new user turn, and a ceiling that the two older entries fit under, the
  returned list is the system prompt, the few-shot examples, the two entries in
  chronological order (the older first: \<open>Q1\<close> then \<open>A1\<close>), and the new user turn.
\<close>

theorem history_chronological:
  assumes "count_existing cnt 0 (\<lparr>role = SYSTEM, content = Text sp\<rparr> # fs @ [\<lparr>role = USER, content = uc\<rparr>]) = Inr base"
    and "cnt h1 = Inr c1" and "cnt h2 = Inr c2"
    and "base + c2 \<le> T" and "base + c2 + c1 \<le> T"
  shows "get_messages_from_history cnt sp [h1, h2, h3] uc T fs =
           Inr (\<lparr>role = SYSTEM, content = Text sp\<rparr> # fs @ [h1, h2, \<lparr>role = USER, content = uc\<rparr>])"
proof -
  let ?sys = "\<lparr>role = SYSTEM, content = Text sp\<rparr>" and ?usr = "\<lparr>role = USER, content = uc\<rparr>"
  have i1: "insert_message (?sys # fs @ [?usr]) (role h2) (content h2) (length fs + 1) = ?sys # fs @ [h2, ?usr]"
    using insert_message_after_shots [of ?sys fs "[?usr]"] by simp
  have i2: "insert_message (?sys # fs @ [h2, ?usr]) (role h1) (content h1) (length fs + 1) = ?sys # fs @ [h1, h2, ?usr]"
    using insert_message_after_shots [of ?sys fs "[h2, ?usr]"] by simp
  show ?thesis
    using assms i1 i2 by (simp add: get_messages_unfold)
qed


theorem history_chronological_witness:
  "get_messages_from_history example_count ''sys''
     [\<lparr>role = USER, content = Text ''Q1''\<rparr>, \<lparr>role = ASSISTANT, content = Text ''A1''\<rparr>,
      \<lparr>role = USER, content = Text ''Q2''\<rparr>] (Text ''Q2'') 100
     [\<lparr>role = USER, content = Text ''f1''\<rparr>, \<lparr>role = ASSISTANT, content = Text ''f2''\<rparr>] =
   Inr [\<lparr>role = SYSTEM, content = Text ''sys''\<rparr>,
        \<lparr>role = USER, content = Text ''f1''\<rparr>, \<lparr>role = ASSISTANT, content = Text ''f2''\<rparr>,
        \<lparr>role = USER, content = Text ''Q1''\<rparr>, \<lparr>role = ASSISTANT, content = Text ''A1''\<rparr>,
        \<lparr>role = USER, content = Text ''Q2''\<rparr>]"
  using history_chronological [of example_count "''sys''"
     "[\<lparr>role = USER, content = Text ''f1''\<rparr>, \<lparr>role = ASSISTANT, content = Text ''f2''\<rparr>]"
     "Text ''Q2''" 25 "\<lparr>role = USER, content = Text ''Q1''\<rparr>" 6
     "\<lparr>role = ASSISTANT, content = Text ''A1''\<rparr>" 6 100 "\<lparr>role = USER, content = Text ''Q2''\<rparr>"]
  by (simp add: example_count_def)

text \<open>
  Claim C5 as stated fails: the order \<open>A1\<close> then \<open>Q1\<close> is not what is returned.
\<close>

theorem history_order_counterexample:
  "get_messages_from_history example_count ''sys''
     [\<lparr>role = USER, content = Text ''Q1''\<rparr>, \<lparr>role = ASSISTANT, content = Text ''A1''\<rparr>,
      \<lparr>role = USER, content = Text ''Q2''\<rparr>] (Text ''Q2'') 100
     [\<lparr>role = USER, content = Text ''f1''\<rparr>, \<lparr>role = ASSISTANT, content = Text ''f2''\<rparr>] \<noteq>
   Inr [\<lparr>role = SYSTEM, content = Text ''sys''\<rparr>,
        \<lparr>role = USER, content = Text ''f1''\<rparr>, \<lparr>role = ASSISTANT, content = Text ''f2''\<rparr>,
        \<lparr>role = ASSISTANT, content = Text ''A1''\<rparr>, \<lparr>role = USER, content = Text ''Q1''\<rparr>,
        \<lparr>role = USER, content = Text ''Q2''\<rparr>]"
  by (simp add: get_messages_from_history_def message_builder_def insert_message_def
      example_count_def SYSTEM_def USER_def ASSISTANT_def)

section \<open>Properties of the search query\<close>









section \<open>Properties of the retrieval steps\<close>

lemma length_join_characters:
  "length (str_join '' '' (characters (c # cs))) = 2 * length cs + 1"
  by (induction cs arbitrary: c) (simp_all add: characters_def)

lemma query_max_tokens_request:
  "query_max_tokens limit (user_query_request q) = limit - (53 + 2 * int (length q))"
proof -
  have "user_query_request q = CHR ''G'' # (''enerate search query for: '' @ q)"
    by (simp add: user_query_request_def)
  then have "length (str_join '' '' (characters (user_query_request q))) =
      2 * length (''enerate search query for: '' @ q) + 1"
    using length_join_characters by simp
  then show ?thesis by (simp add: query_max_tokens_def)
qed

text \<open>
  What the code passes as the ceiling of the query-distillation step: \<open>str.join\<close> on a
  string puts the separator between every two of its characters, so for the request
  \<open>"Generate search query for: "\<close> followed by a question of \<open>n\<close> characters the
  ceiling is the token limit minus \<open>2 * (27 + n) - 1 = 53 + 2 * n\<close>.
\<close>

lemma query_ceiling:
  assumes "history \<noteq> []" and "content (last history) = Text q"
  shows "query_messages cnt limit tpl shots history =
     get_messages_from_history cnt tpl history (Text (''Generate search query for: '' @ q))
       (limit - (53 + 2 * int (length q))) shots"
  using assms query_max_tokens_request [of limit q]
  by (cases history) (simp_all add: query_messages_def user_query_request_def)


lemma query_ceiling_example:
  "query_messages example_count 4000 ''template'' [] [\<lparr>role = USER, content = Text ''hi''\<rparr>] =
     get_messages_from_history example_count ''template'' [\<lparr>role = USER, content = Text ''hi''\<rparr>]
       (Text ''Generate search query for: hi'') 3943 []"
  using query_ceiling [of "[\<lparr>role = USER, content = Text ''hi''\<rparr>]" "''hi''" example_count 4000 "''template''" "[]"]
  by simp


text \<open>
  Claim C7, on the code at a failing input. For the question \<open>"hi"\<close> and a token limit
  of 4000 the request string \<open>"Generate search query for: hi"\<close> has 29 characters, so the
  ceiling the claim gives is 3971; the code subtracts the length of the string joined
  with spaces, 57, and passes 3943.
\<close>

theorem query_ceiling_not_length:
  "length (user_query_request ''hi'') = 29 \<and>
   4000 - int (length (user_query_request ''hi'')) = 3971 \<and>
   query_max_tokens 4000 (user_query_request ''hi'') = 3943 \<and>
   query_max_tokens 4000 (user_query_request ''hi'') \<noteq>
     4000 - int (length (user_query_request ''hi''))"
  by (simp add: query_max_tokens_def user_query_request_def characters_def)

lemma has_text_vectors:
  "overrides_get ov ''retrieval_mode'' = PStr ''vectors'' \<Longrightarrow> \<not> has_text ov"
  by (simp add: has_text_def)

text \<open>
  What the two approaches pass with \<open>retrieval_mode\<close> equal to \<open>"vectors"\<close>, whatever
  the other overrides are: when the vision approach reaches the search call, it passes
  \<open>False\<close> for \<open>use_semantic_ranker\<close> and for \<open>use_semantic_captions\<close> and \<open>None\<close> for the
  query text; the retrieve-then-read approach reaches the search call on every list of
  messages that is not empty, and passes \<open>False\<close> for \<open>use_semantic_captions\<close>, \<open>None\<close>
  for the query text, and for \<open>use_semantic_ranker\<close> the value of
  \<^verbatim>\<open>overrides.get("semantic_ranker") and False\<close>, which is never true but is \<open>False\<close>
  only when the override is true or is \<open>False\<close> itself.
\<close>

lemma vectors_mode_search_args:
  assumes "overrides_get ov ''retrieval_mode'' = PStr ''vectors''"
  shows "(\<forall>args. vision_search_args cnt loads limit tpl shots create ov history = Inr args \<longrightarrow>
            use_semantic_ranker args = PBool False \<and> use_semantic_captions args = PBool False \<and>
            query_text args = None) \<and>
         (\<forall>args. retrieve_then_read_search_args ov msgs = Inr args \<longrightarrow>
            use_semantic_ranker args = py_and (overrides_get ov ''semantic_ranker'') (PBool False) \<and>
            \<not> truthy (use_semantic_ranker args) \<and> use_semantic_captions args = PBool False \<and>
            query_text args = None) \<and>
         (msgs \<noteq> [] \<longrightarrow> (\<exists>args. retrieve_then_read_search_args ov msgs = Inr args))"
proof -
  from assms have nt: "\<not> has_text ov" by (rule has_text_vectors)
  have v: "\<forall>args. vision_search_args cnt loads limit tpl shots create ov history = Inr args \<longrightarrow>
            use_semantic_ranker args = PBool False \<and> use_semantic_captions args = PBool False \<and>
            query_text args = None"
    using nt by (auto simp: vision_search_args_def Let_def py_and_def split: sum.splits if_splits)
  have r: "\<forall>args. retrieve_then_read_search_args ov msgs = Inr args \<longrightarrow>
            use_semantic_ranker args = py_and (overrides_get ov ''semantic_ranker'') (PBool False) \<and>
            \<not> truthy (use_semantic_ranker args) \<and> use_semantic_captions args = PBool False \<and>
            query_text args = None"
    using nt by (auto simp: retrieve_then_read_search_args_def Let_def py_and_def split: list.splits)
  have e: "msgs \<noteq> [] \<longrightarrow> (\<exists>args. retrieve_then_read_search_args ov msgs = Inr args)"
    by (cases msgs) (simp_all add: retrieve_then_read_search_args_def Let_def)
  from v r e show ?thesis by blast
qed


lemma vectors_mode_search_args_example:
  "overrides_get (map_of [(''retrieval_mode'', PStr ''vectors''), (''semantic_ranker'', PBool True),
       (''semantic_captions'', PBool True)]) ''retrieval_mode'' = PStr ''vectors'' \<and>
   vision_search_args example_count example_loads 4000 ''template'' [] example_create
     (map_of [(''retrieval_mode'', PStr ''vectors''), (''semantic_ranker'', PBool True),
       (''semantic_captions'', PBool True)])
     [\<lparr>role = USER, content = Text ''why was the rent case appealed?''\<rparr>] =
     Inr \<lparr>top = PInt 3, query_text = None, vectors = [TextEmbedding (JStr ''rent appeal'')],
          use_semantic_ranker = PBool False, use_semantic_captions = PBool False\<rparr> \<and>
   retrieve_then_read_search_args
     (map_of [(''retrieval_mode'', PStr ''vectors''), (''semantic_ranker'', PBool True),
       (''semantic_captions'', PBool True)])
     [\<lparr>role = USER, content = Text ''why was the rent case appealed?''\<rparr>] =
     Inr \<lparr>top = PInt 3, query_text = None,
          vectors = [TextEmbedding (Text ''why was the rent case appealed?'')],
          use_semantic_ranker = PBool False, use_semantic_captions = PBool False\<rparr> \<and>
   retrieve_then_read_search_args (map_of [(''retrieval_mode'', PStr ''vectors'')])
     [\<lparr>role = USER, content = Text ''why was the rent case appealed?''\<rparr>] =
     Inr \<lparr>top = PInt 3, query_text = None,
          vectors = [TextEmbedding (Text ''why was the rent case appealed?'')],
          use_semantic_ranker = PNone, use_semantic_captions = PBool False\<rparr>"
  using vectors_mode_search_args [of
     "map_of [(''retrieval_mode'', PStr ''vectors''), (''semantic_ranker'', PBool True),
       (''semantic_captions'', PBool True)]"
     example_count example_loads 4000 "''template''" "[]" example_create
     "[\<lparr>role = USER, content = Text ''why was the rent case appealed?''\<rparr>]"
     "[\<lparr>role = USER, content = Text ''why was the rent case appealed?''\<rparr>]"]
  by (simp add: overrides_get_def overrides_get_default_def vision_search_args_def
      retrieve_then_read_search_args_def query_messages_def get_messages_from_history_def
      message_builder_def insert_message_def example_count_def example_create_def
      get_search_query_def example_loads_def arg_get_search_query_def NO_RESPONSE_def
      has_text_def has_vector_def py_and_def compute_vectors_def user_query_request_def
      query_max_tokens_def characters_def)


text \<open>
  Claim C10, on the code at a failing input. With the overrides
  \<^verbatim>\<open>{"retrieval_mode": "vectors"}\<close> the retrieve-then-read approach calls the search with
  \<open>None\<close> for \<open>use_semantic_ranker\<close>, not with \<open>False\<close>: line 83 takes the value of
  \<^verbatim>\<open>overrides.get("semantic_ranker") and has_text\<close> as it is, where line 85 of the same
  function and both flags of the vision approach convert with
  \<^verbatim>\<open>True if ... else False\<close>. With the override set to \<open>0\<close> the value passed is \<open>0\<close>.
\<close>

theorem retrieve_then_read_ranker_not_false:
  "retrieve_then_read_search_args (map_of [(''retrieval_mode'', PStr ''vectors'')])
     [\<lparr>role = USER, content = Text ''why was the rent case appealed?''\<rparr>] =
     Inr \<lparr>top = PInt 3, query_text = None,
          vectors = [TextEmbedding (Text ''why was the rent case appealed?'')],
          use_semantic_ranker = PNone, use_semantic_captions = PBool False\<rparr> \<and>
   PNone \<noteq> PBool False \<and>
   retrieve_then_read_search_args
     (map_of [(''retrieval_mode'', PStr ''vectors''), (''semantic_ranker'', PInt 0)])
     [\<lparr>role = USER, content = Text ''why was the rent case appealed?''\<rparr>] =
     Inr \<lparr>top = PInt 3, query_text = None,
          vectors = [TextEmbedding (Text ''why was the rent case appealed?'')],
          use_semantic_ranker = PInt 0, use_semantic_captions = PBool False\<rparr> \<and>
   PInt 0 \<noteq> PBool False"
  by (simp add: retrieve_then_read_search_args_def overrides_get_def overrides_get_default_def
      has_text_def has_vector_def py_and_def)

section \<open>Properties of the streaming post-processor\<close>

lemma has_marker_append_left: "has_marker xs \<Longrightarrow> has_marker (xs @ ys)"
  by (induction xs rule: has_marker.induct) auto

lemma has_marker_append_right: "has_marker ys \<Longrightarrow> has_marker (xs @ ys)"
proof (induction xs)
  case Nil
  then show ?case by simp
next
  case (Cons x xs)
  then have "has_marker (tl (x # xs @ ys))" by simp
  then show ?case using has_marker_tl [of "x # xs @ ys"] by simp
qed

lemma has_marker_concat: "p \<in> set ps \<Longrightarrow> has_marker p \<Longrightarrow> has_marker (concat ps)"
  by (induction ps) (auto intro: has_marker_append_left has_marker_append_right)

lemma before_marker_append_clean:
  "\<not> has_marker (a @ take 1 y) \<Longrightarrow> before_marker (a @ y) = a @ before_marker y"
proof (induction a rule: has_marker.induct)
  case (1 x x' a')
  then show ?case by auto
qed (cases y; auto)+

lemma before_marker_append_marked:
  "has_marker xs \<Longrightarrow> before_marker (xs @ ys) = before_marker xs"
  by (induction xs rule: before_marker.induct) auto

lemma stream_step_plain:
  "\<not> has_marker s \<Longrightarrow>
   stream_step True st (Delta (Some s)) =
     (if followup_questions_started st then (st\<lparr>followup_content := followup_content st @ s\<rparr>, [])
      else (st, [Delta (Some s)]))"
  by (simp add: stream_step_def content_or_empty_def)

lemma stream_step_marked:
  "has_marker s \<Longrightarrow>
   stream_step True st (Delta (Some s)) =
     (\<lparr>followup_questions_started = True,
       followup_content = followup_content st @ from_marker s\<rparr>,
      if before_marker s \<noteq> [] then [Delta (Some (before_marker s))] else [])"
  by (simp add: stream_step_def content_or_empty_def Let_def)

lemma stream_loop_normal:
  "\<forall>p\<in>set pre. \<not> has_marker p \<Longrightarrow> \<not> followup_questions_started st \<Longrightarrow>
   stream_loop True st (map (\<lambda>s. Delta (Some s)) pre @ rest) =
     (fst (stream_loop True st rest),
      map (\<lambda>s. Delta (Some s)) pre @ snd (stream_loop True st rest))"
  by (induction pre) (simp_all add: stream_step_plain split: prod.splits)

lemma stream_loop_accumulating:
  "followup_questions_started st \<Longrightarrow> \<forall>p\<in>set post. has_marker p \<longrightarrow> before_marker p = [] \<Longrightarrow>
   snd (stream_loop True st (map (\<lambda>s. Delta (Some s)) post)) = []"
proof (induction post arbitrary: st)
  case Nil
  then show ?case by simp
next
  case (Cons p post)
  show ?case
  proof (cases "has_marker p")
    case True
    with Cons.prems have e: "before_marker p = []" by simp
    let ?st = "\<lparr>followup_questions_started = True,
       followup_content = followup_content st @ from_marker p\<rparr>"
    have "snd (stream_loop True ?st (map (\<lambda>s. Delta (Some s)) post)) = []"
      using Cons.IH [of ?st] Cons.prems by simp
    with True e show ?thesis by (simp add: stream_step_marked split: prod.splits)
  next
    case False
    let ?st = "st\<lparr>followup_content := followup_content st @ p\<rparr>"
    have "snd (stream_loop True ?st (map (\<lambda>s. Delta (Some s)) post)) = []"
      using Cons.IH [of ?st] Cons.prems by simp
    with False Cons.prems(1) show ?thesis by (simp add: stream_step_plain split: prod.splits)
  qed
qed

lemma visible_content_run:
  "visible_content (run_with_streaming True evs) =
     concat (map (\<lambda>e. chunk_content (Passed e)) (snd (stream_loop True initial_state evs)))"
  by (simp add: visible_content_def run_with_streaming_def split: prod.splits)
    (simp add: comp_def)

lemma concat_passed_deltas:
  "concat (map ((\<lambda>e. chunk_content (Passed e)) \<circ> (\<lambda>s. Delta (Some s))) ps) = concat ps"
  by (induction ps) (simp_all add: content_or_empty_def)

text \<open>
  Claim C2, as amended. The marker is looked for in each delta by itself, so a \<open><<\<close>
  whose two characters arrive in two deltas is not seen. What holds, with follow-up
  questions requested: for deltas \<open>pre @ d # post\<close> such that no \<open><<\<close> begins in the text
  of \<open>pre\<close> (not even with the first character of \<open>d\<close>), such that \<open>d\<close> holds a \<open><<\<close> or
  the whole response holds none, and such that every later delta that holds a \<open><<\<close>
  begins with it, the contents yielded by \<open>run_with_streaming\<close>, concatenated in order,
  are the visible content that \<open>extract_followup_questions\<close> and \<open>run_without_streaming\<close>
  leave of the whole response.
\<close>

theorem streaming_matches_nonstreaming:
  assumes clean: "\<not> has_marker (concat pre @ take 1 d)"
    and later: "\<forall>p\<in>set post. has_marker p \<longrightarrow> before_marker p = []"
    and first: "has_marker d \<or> \<not> has_marker (concat (pre @ d # post))"
  shows "visible_content (run_with_streaming True (map (\<lambda>s. Delta (Some s)) (pre @ d # post))) =
           fst (extract_followup_questions (concat (pre @ d # post))) \<and>
         (\<exists>questions. run_without_streaming True (Some (concat (pre @ d # post))) =
            Inr (Some (visible_content
                   (run_with_streaming True (map (\<lambda>s. Delta (Some s)) (pre @ d # post)))),
                 questions))"
proof -
  let ?D = "\<lambda>s. Delta (Some s)"
  have pre_clean: "\<forall>p\<in>set pre. \<not> has_marker p"
    using clean has_marker_concat has_marker_append_left by blast
  have init: "\<not> followup_questions_started initial_state" by (simp add: initial_state_def)
  have vis: "visible_content (run_with_streaming True (map ?D (pre @ d # post))) =
      before_marker (concat (pre @ d # post))"
  proof (cases "has_marker d")
    case True
    then have dne: "d \<noteq> []" by auto
    let ?st = "\<lparr>followup_questions_started = True,
       followup_content = followup_content initial_state @ from_marker d\<rparr>"
    have acc: "snd (stream_loop True ?st (map ?D post)) = []"
      using stream_loop_accumulating [of ?st post] later by simp
    have "snd (stream_loop True initial_state (map ?D (d # post))) =
        (if before_marker d \<noteq> [] then [?D (before_marker d)] else [])"
      using True acc by (auto simp: stream_step_marked split: prod.splits)
    then have "snd (stream_loop True initial_state (map ?D pre @ map ?D (d # post))) =
        map ?D pre @ (if before_marker d \<noteq> [] then [?D (before_marker d)] else [])"
      using stream_loop_normal [OF pre_clean init, of "map ?D (d # post)"] by simp
    then have "visible_content (run_with_streaming True (map ?D (pre @ d # post))) =
        concat pre @ before_marker d"
      by (simp add: visible_content_run concat_passed_deltas content_or_empty_def)
    moreover have "before_marker (concat pre @ (d @ concat post)) =
        concat pre @ before_marker (d @ concat post)"
    proof -
      from dne have t: "take 1 (d @ concat post) = take 1 d" by (cases d) simp_all
      have "\<not> has_marker (concat pre @ take 1 (d @ concat post))"
        unfolding t by (rule clean)
      then show ?thesis by (rule before_marker_append_clean)
    qed
    moreover have "before_marker (d @ concat post) = before_marker d"
      using True by (rule before_marker_append_marked)
    ultimately show ?thesis by simp
  next
    case False
    with first have none: "\<not> has_marker (concat (pre @ d # post))" by simp
    then have all_clean: "\<forall>p\<in>set (pre @ d # post). \<not> has_marker p"
      using has_marker_concat by blast
    have "snd (stream_loop True initial_state (map ?D (pre @ d # post) @ [])) =
        map ?D (pre @ d # post) @ []"
      using stream_loop_normal [OF all_clean init, of "[]"] by simp
    then have "visible_content (run_with_streaming True (map ?D (pre @ d # post))) =
        concat (pre @ d # post)"
      by (simp add: visible_content_run concat_passed_deltas content_or_empty_def)
    with none show ?thesis by (simp add: before_marker_id)
  qed
  then show ?thesis
    by (simp add: extract_followup_questions_def run_without_streaming_def)
qed


theorem streaming_matches_nonstreaming_witness:
  "\<not> has_marker (concat [''Here''] @ take 1 '' is <<'') \<and> has_marker '' is <<'' \<and>
   \<not> has_marker ''Q1?>>'' \<and>
   visible_content (run_with_streaming True
      [Delta (Some ''Here''), Delta (Some '' is <<''), Delta (Some ''Q1?>>'')]) =
     fst (extract_followup_questions ''Here is <<Q1?>>'') \<and>
   fst (extract_followup_questions ''Here is <<Q1?>>'') = ''Here is ''"
proof -
  have h1: "\<not> has_marker (concat [''Here''] @ take 1 '' is <<'')" by simp
  have h2: "\<forall>p\<in>set [''Q1?>>'']. has_marker p \<longrightarrow> before_marker p = []" by simp
  have h3: "has_marker '' is <<'' \<or> \<not> has_marker (concat ([''Here''] @ '' is <<'' # [''Q1?>>'']))"
    by simp
  from streaming_matches_nonstreaming [OF h1 h2 h3]
  have "visible_content (run_with_streaming True
      (map (\<lambda>s. Delta (Some s)) ([''Here''] @ '' is <<'' # [''Q1?>>'']))) =
     fst (extract_followup_questions (concat ([''Here''] @ '' is <<'' # [''Q1?>>''])))" ..
  then show ?thesis by (simp add: extract_followup_questions_def)
qed


text \<open>
  Claim C2 as stated fails when the response \<open>"The answer. <<Q1?>>"\<close> is split between
  the two characters of the marker: no delta holds \<open><<\<close>, both are yielded as they are,
  and the streamed content is the whole response, not \<open>"The answer. "\<close>.
\<close>

theorem marker_across_deltas_is_emitted:
  "visible_content (run_with_streaming True
      [Delta (Some ''The answer. <''), Delta (Some ''<Q1?>>'')]) \<noteq>
   fst (extract_followup_questions (concat [''The answer. <'', ''<Q1?>>'']))"
  by code_simp


text \<open>
  Claim C1, on the code at a failing input. After a first delta \<open>"The answer. <<Q1?"\<close>
  the loop is accumulating. The next delta \<open>">> <<Q2?>>"\<close> holds a \<open><<\<close> again, so the
  first branch of the loop is taken once more: the text \<open>">> "\<close> before that marker is
  yielded to the caller, and only the rest of the delta is appended to the buffer, from
  which the single question \<open>"Q1?<<Q2?"\<close> is then extracted.
\<close>

theorem accumulating_delta_leaks_prefix:
  "stream_step True \<lparr>followup_questions_started = True, followup_content = ''<<Q1?''\<rparr>
     (Delta (Some ''>> <<Q2?>>'')) =
     (\<lparr>followup_questions_started = True, followup_content = ''<<Q1?<<Q2?>>''\<rparr>,
      [Delta (Some ''>> '')]) \<and>
   run_with_streaming True [Delta (Some ''The answer. <<Q1?''), Delta (Some ''>> <<Q2?>>'')] =
     [RoleContext, Passed (Delta (Some ''The answer. '')), Passed (Delta (Some ''>> '')),
      FollowupQuestions [''Q1?<<Q2?'']]"
  by code_simp


end
